theory Spec2Isabelle
  imports Main
begin

section \<open>Wake scheduler (src/infra/heartbeat-wake.ts)\<close>

subsection \<open>Data\<close>

text \<open>
  The handler's result type \<^verbatim>\<open>HeartbeatRunResult\<close> is a tagged union with three
  cases. The handler is asynchronous: its promise either resolves with a result or
  rejects (the \<^verbatim>\<open>catch\<close> branch of the timer callback).
\<close>

datatype HeartbeatRunResult = Ran int | Skipped string | Failed string

datatype outcome = Resolved HeartbeatRunResult | Rejected

text \<open>
  The host's timer queue. \<^verbatim>\<open>setTimeout\<close> returns a handle; the callback closes over
  the \<^verbatim>\<open>coalesceMs\<close> argument of the \<^verbatim>\<open>schedule\<close> call that created it. Time is a
  logical clock in milliseconds.
\<close>

record timeout =
  handle :: nat
  deadline :: nat
  delay :: nat

text \<open>What the environment can observe: handler calls and \<^verbatim>\<open>log.warn\<close> lines.\<close>

datatype observation = Invoked nat "string option" | Warned string

text \<open>
  The module-level variables (\<open>handler\<close> \<dots> \<open>retryCount\<close>) followed by the part of
  the host the module acts on: the outstanding timeouts, the next fresh handle, the
  clock, the suspended callbacks awaiting their handler promise (each holds its local
  \<^verbatim>\<open>reason\<close> and \<^verbatim>\<open>coalesceMs\<close>), and the observations so far. A handler is
  identified by a number.
\<close>

record sched =
  handler :: "nat option"
  pendingReason :: "string option"
  scheduled :: bool
  running :: bool
  timer :: "nat option"
  retryCount :: nat
  timeouts :: "timeout list"
  next_handle :: nat
  now :: nat
  inflight :: "(string option \<times> nat) list"
  trace :: "observation list"

definition DEFAULT_COALESCE_MS :: nat where
  "DEFAULT_COALESCE_MS = 250"

definition DEFAULT_RETRY_MS :: nat where
  "DEFAULT_RETRY_MS = 1000"

definition MAX_RETRIES :: nat where
  "MAX_RETRIES = 10"

definition initial :: sched where
  "initial = \<lparr>handler = None, pendingReason = None, scheduled = False, running = False,
     timer = None, retryCount = 0, timeouts = [], next_handle = 0, now = 0,
     inflight = [], trace = []\<rparr>"

text \<open>
  JavaScript truthiness of \<^verbatim>\<open>string | null\<close>: \<^verbatim>\<open>null\<close> and the empty string are
  falsy. The nullish operator \<^verbatim>\<open>??\<close> only tests for \<^verbatim>\<open>null\<close>/\<^verbatim>\<open>undefined\<close>.
\<close>

fun truthy :: "string option \<Rightarrow> bool" where
  "truthy None = False"
| "truthy (Some r) = (r \<noteq> [])"

fun nullish :: "'a option \<Rightarrow> 'a \<Rightarrow> 'a" where
  "nullish None d = d"
| "nullish (Some v) d = v"

subsection \<open>The scheduling routine\<close>

text \<open>\<^verbatim>\<open>schedule\<close>, up to the call of \<^verbatim>\<open>setTimeout\<close>: nothing happens while a timer
  handle is stored.\<close>

definition schedule :: "nat \<Rightarrow> sched \<Rightarrow> sched" where
  "schedule coalesceMs s =
     (if timer s \<noteq> None then s
      else s\<lparr>timer := Some (next_handle s),
             timeouts := timeouts s @
               [\<lparr>handle = next_handle s, deadline = now s + coalesceMs, delay = coalesceMs\<rparr>],
             next_handle := Suc (next_handle s)\<rparr>)"

text \<open>The timer callback from its start to the \<^verbatim>\<open>await\<close> (lines 28--44).\<close>

definition timer_callback :: "nat \<Rightarrow> sched \<Rightarrow> sched" where
  "timer_callback coalesceMs s0 =
     (let s = s0\<lparr>timer := None, scheduled := False\<rparr> in
      case handler s of
        None \<Rightarrow> s
      | Some active \<Rightarrow>
          if running s then schedule coalesceMs (s\<lparr>scheduled := True\<rparr>)
          else
            let reason = pendingReason s in
            s\<lparr>pendingReason := None, running := True,
              inflight := inflight s @ [(reason, coalesceMs)],
              trace := trace s @ [Invoked active reason]\<rparr>)"

definition exhausted_message :: "string \<Rightarrow> string" where
  "exhausted_message why = ''heartbeat wake retries exhausted (10), reason: '' @ why"

text \<open>
  The retry path. The source writes it twice, once in the \<^verbatim>\<open>try\<close> block with
  \<^verbatim>\<open>res.reason\<close> in the warning (lines 48--55) and once in the \<^verbatim>\<open>catch\<close> block
  with the word \<^verbatim>\<open>error\<close> (lines 61--68).
\<close>

definition retry_path :: "string \<Rightarrow> string option \<Rightarrow> sched \<Rightarrow> sched" where
  "retry_path why reason s =
     (if retryCount s \<ge> MAX_RETRIES
      then s\<lparr>retryCount := 0, trace := trace s @ [Warned (exhausted_message why)]\<rparr>
      else schedule DEFAULT_RETRY_MS
             (s\<lparr>retryCount := retryCount s + 1,
                pendingReason := Some (nullish reason ''retry'')\<rparr>))"

text \<open>The \<^verbatim>\<open>finally\<close> block (lines 70--73); it also runs after the early returns.\<close>

definition finally_block :: "nat \<Rightarrow> sched \<Rightarrow> sched" where
  "finally_block coalesceMs s0 =
     (let s = s0\<lparr>running := False\<rparr> in
      if truthy (pendingReason s) \<or> scheduled s then schedule coalesceMs s else s)"

text \<open>The callback from the resumption after \<^verbatim>\<open>await\<close> to its end (lines 45--74).\<close>

definition resume :: "string option \<Rightarrow> nat \<Rightarrow> outcome \<Rightarrow> sched \<Rightarrow> sched" where
  "resume reason coalesceMs out s =
     finally_block coalesceMs
       (case out of
          Resolved res \<Rightarrow>
            (case res of
               Skipped r \<Rightarrow>
                 if r \<noteq> ''disabled'' then retry_path r reason s
                 else s\<lparr>retryCount := 0\<rparr>
             | Ran d \<Rightarrow> s\<lparr>retryCount := 0\<rparr>
             | Failed r \<Rightarrow> s\<lparr>retryCount := 0\<rparr>)
        | Rejected \<Rightarrow> retry_path ''error'' reason s)"

subsection \<open>Exported operations\<close>

definition setHeartbeatWakeHandler :: "nat option \<Rightarrow> sched \<Rightarrow> sched" where
  "setHeartbeatWakeHandler next s0 =
     (let s = s0\<lparr>handler := next\<rparr> in
      if handler s \<noteq> None \<and> truthy (pendingReason s)
      then schedule DEFAULT_COALESCE_MS s else s)"

definition requestHeartbeatNow :: "string option \<Rightarrow> nat option \<Rightarrow> sched \<Rightarrow> sched" where
  "requestHeartbeatNow reason coalesceMs s =
     schedule (nullish coalesceMs DEFAULT_COALESCE_MS)
       (s\<lparr>pendingReason :=
            Some (nullish reason (nullish (pendingReason s) ''requested''))\<rparr>)"

definition hasHeartbeatWakeHandler :: "sched \<Rightarrow> bool" where
  "hasHeartbeatWakeHandler s = (handler s \<noteq> None)"

definition hasPendingHeartbeatWake :: "sched \<Rightarrow> bool" where
  "hasPendingHeartbeatWake s = (pendingReason s \<noteq> None \<or> timer s \<noteq> None \<or> scheduled s)"

definition clearTimeout :: "nat \<Rightarrow> timeout list \<Rightarrow> timeout list" where
  "clearTimeout h ts = filter (\<lambda>t. handle t \<noteq> h) ts"

definition resetHeartbeatWakeForTest :: "sched \<Rightarrow> sched" where
  "resetHeartbeatWakeForTest s =
     s\<lparr>handler := None, pendingReason := None, scheduled := False, running := False,
       timeouts := (case timer s of None \<Rightarrow> timeouts s | Some h \<Rightarrow> clearTimeout h (timeouts s)),
       timer := None, retryCount := 0\<rparr>"

subsection \<open>The event loop\<close>

text \<open>
  Everything that can happen to the module on the host's single timeline: a call of an
  exported function, the clock advancing, an outstanding timeout coming due and running
  its callback, and the promise of a handler call settling, which resumes the callback
  that awaits it. The host never fires a timeout that is not outstanding or not due and
  never settles a call that is not in flight; such events leave the state as it is.
\<close>

datatype event =
    RequestWake "string option" "nat option"
  | SetHandler "nat option"
  | ResetForTest
  | Advance nat
  | TimerFire nat
  | HandlerDone "string option" nat outcome

fun step :: "event \<Rightarrow> sched \<Rightarrow> sched" where
  "step (RequestWake reason coalesceMs) s = requestHeartbeatNow reason coalesceMs s"
| "step (SetHandler next) s = setHeartbeatWakeHandler next s"
| "step ResetForTest s = resetHeartbeatWakeForTest s"
| "step (Advance d) s = s\<lparr>now := now s + d\<rparr>"
| "step (TimerFire h) s =
     (case find (\<lambda>t. handle t = h) (timeouts s) of
        None \<Rightarrow> s
      | Some t \<Rightarrow>
          if deadline t \<le> now s
          then timer_callback (delay t) (s\<lparr>timeouts := clearTimeout h (timeouts s)\<rparr>)
          else s)"
| "step (HandlerDone reason coalesceMs out) s =
     (if (reason, coalesceMs) \<in> set (inflight s)
      then resume reason coalesceMs out
             (s\<lparr>inflight := remove1 (reason, coalesceMs) (inflight s)\<rparr>)
      else s)"

definition run :: "event list \<Rightarrow> sched \<Rightarrow> sched" where
  "run evs s = foldl (\<lambda>s e. step e s) s evs"

subsection \<open>Driving the loop, reading the trace, and the state invariant\<close>

text \<open>
  The host lets the clock reach the deadline of the oldest outstanding timeout and fires
  it; the handler call that has been in flight longest settles with a given outcome.
\<close>

definition fire_armed :: "sched \<Rightarrow> sched" where
  "fire_armed s =
     (case timeouts s of
        [] \<Rightarrow> s
      | t # _ \<Rightarrow> step (TimerFire (handle t)) (step (Advance (deadline t - now s)) s))"

definition settle_first :: "outcome \<Rightarrow> sched \<Rightarrow> sched" where
  "settle_first out s =
     (case inflight s of
        [] \<Rightarrow> s
      | (reason, coalesceMs) # _ \<Rightarrow> step (HandlerDone reason coalesceMs out) s)"

text \<open>One round with a handler that answers \<^verbatim>\<open>{status: "skipped", reason: r}\<close>, and a
  run of such rounds, one per reason of the list.\<close>

definition skip_round :: "string \<Rightarrow> sched \<Rightarrow> sched" where
  "skip_round r s = settle_first (Resolved (Skipped r)) (fire_armed s)"

definition skip_rounds :: "string list \<Rightarrow> sched \<Rightarrow> sched" where
  "skip_rounds rs s = foldl (\<lambda>s r. skip_round r s) s rs"

fun is_invocation :: "observation \<Rightarrow> bool" where
  "is_invocation (Invoked h r) = True"
| "is_invocation (Warned m) = False"

definition invocations :: "sched \<Rightarrow> nat" where
  "invocations s = length (filter is_invocation (trace s))"

definition warnings :: "sched \<Rightarrow> observation list" where
  "warnings s = filter (\<lambda>ob. \<not> is_invocation ob) (trace s)"

fun is_request :: "event \<Rightarrow> bool" where
  "is_request (RequestWake reason coalesceMs) = True"
| "is_request e = False"

fun request_or_advance :: "event \<Rightarrow> bool" where
  "request_or_advance (RequestWake reason coalesceMs) = True"
| "request_or_advance (Advance d) = True"
| "request_or_advance e = False"

fun transient :: "outcome \<Rightarrow> bool" where
  "transient Rejected = True"
| "transient (Resolved (Skipped r)) = (r \<noteq> ''disabled'')"
| "transient (Resolved res) = False"

text \<open>
  The state invariant: the retry counter stays within its budget, and the timeouts
  outstanding in the host are exactly the one whose handle the variable \<open>timer\<close> holds
  (none when it is \<^verbatim>\<open>null\<close>).
\<close>

definition sched_inv :: "sched \<Rightarrow> bool" where
  "sched_inv s =
     (retryCount s \<le> MAX_RETRIES \<and>
      map handle (timeouts s) = (case timer s of None \<Rightarrow> [] | Some h \<Rightarrow> [h]))"

text \<open>A timer is armed for a registered handler and no call is in flight.\<close>

definition armed_idle :: "nat \<Rightarrow> sched \<Rightarrow> bool" where
  "armed_idle h s =
     (handler s = Some h \<and> \<not> running s \<and> inflight s = [] \<and> timer s \<noteq> None \<and>
      map handle (timeouts s) = (case timer s of None \<Rightarrow> [] | Some t \<Rightarrow> [t]))"

text \<open>Nothing is pending anywhere: no timer, no reason, no call in flight.\<close>

definition quiet :: "sched \<Rightarrow> bool" where
  "quiet s =
     (timer s = None \<and> timeouts s = [] \<and> pendingReason s = None \<and> \<not> scheduled s \<and>
      \<not> running s \<and> inflight s = [])"

section \<open>Session event queue\<close>

text \<open>
  The queue module (\<^verbatim>\<open>system-events.ts\<close>) is exercised by
  \<^verbatim>\<open>src/infra/system-events.test.ts\<close>; its operations are modelled from the
  specification's section 4.2.
\<close>

datatype queue_error = InvalidArgument string

record queues =
  buffers :: "string \<rightharpoonup> string list"
  overflows :: "string list"

definition MAX_EVENTS :: nat where
  "MAX_EVENTS = 20"

definition no_events :: queues where
  "no_events = \<lparr>buffers = Map.empty, overflows = []\<rparr>"

definition is_space :: "char \<Rightarrow> bool" where
  "is_space c = (c \<in> set [CHR '' '', CHR 0x09, CHR 0x0A, CHR 0x0B, CHR 0x0C, CHR 0x0D])"

text \<open>Modelled from the spec: the test of the session key for being blank or
  whitespace-only, which the absent queue module performs on \<^verbatim>\<open>enqueue\<close>.\<close>

definition is_blank :: "string \<Rightarrow> bool" where
  "is_blank k = list_all is_space k"

text \<open>Modelled from the spec: \<^verbatim>\<open>peek(sessionKey)\<close> of the absent queue module, the
  current ordered sequence of the key, without consuming it.\<close>

definition peekSystemEvents :: "string \<Rightarrow> queues \<Rightarrow> string list" where
  "peekSystemEvents k q = (case buffers q k of None \<Rightarrow> [] | Some evs \<Rightarrow> evs)"

text \<open>Modelled from the spec: \<^verbatim>\<open>enqueue(text, {sessionKey})\<close> of the absent queue
  module. A blank key fails with \<^verbatim>\<open>InvalidArgument\<close>, naming the argument; otherwise
  the text is appended, and when the length would exceed the capacity the oldest entry is
  evicted and an overflow observation carrying the key is emitted.\<close>

definition enqueueSystemEvent :: "string \<Rightarrow> string \<Rightarrow> queues \<Rightarrow> queue_error option \<times> queues" where
  "enqueueSystemEvent text k q =
     (if is_blank k then (Some (InvalidArgument ''sessionKey''), q)
      else
        let evs = peekSystemEvents k q @ [text] in
        if length evs > MAX_EVENTS
        then (None, q\<lparr>buffers := (buffers q)(k \<mapsto> tl evs), overflows := overflows q @ [k]\<rparr>)
        else (None, q\<lparr>buffers := (buffers q)(k \<mapsto> evs)\<rparr>))"

text \<open>Modelled from the spec: \<^verbatim>\<open>drainAndPrefix(sessionKey)\<close> of the absent queue
  module, which removes and returns all queued events of the key in arrival order.\<close>

definition drainAndPrefix :: "string \<Rightarrow> queues \<Rightarrow> string list \<times> queues" where
  "drainAndPrefix k q = (peekSystemEvents k q, q\<lparr>buffers := (buffers q)(k \<mapsto> [])\<rparr>)"

text \<open>Enqueuing a list of texts under one key, one call after the other.\<close>

definition enqueue_all :: "string \<Rightarrow> string list \<Rightarrow> queues \<Rightarrow> queues" where
  "enqueue_all k texts q = foldl (\<lambda>q t. snd (enqueueSystemEvent t k q)) q texts"

section \<open>Properties of the wake scheduler\<close>

lemmas sched_defs = requestHeartbeatNow_def schedule_def setHeartbeatWakeHandler_def
      resetHeartbeatWakeForTest_def clearTimeout_def timer_callback_def resume_def finally_block_def
      retry_path_def

lemma armed_idle_timeouts:
  assumes "armed_idle h s"
  obtains t where "timeouts s = [t]" "timer s = Some (handle t)"
  using assms by (auto simp: armed_idle_def split: option.splits)

lemma fire_armed_invokes:
  assumes "armed_idle h s"
  shows "fire_armed s = s\<lparr>timer := None, scheduled := False, pendingReason := None, running := True,
            timeouts := [], now := now s + (deadline (hd (timeouts s)) - now s),
            inflight := [(pendingReason s, delay (hd (timeouts s)))],
            trace := trace s @ [Invoked h (pendingReason s)]\<rparr>"
proof -
  obtain t where t: "timeouts s = [t]" "timer s = Some (handle t)"
    using assms by (rule armed_idle_timeouts)
  from assms have "handler s = Some h" "\<not> running s" "inflight s = []"
    by (simp_all add: armed_idle_def)
  then show ?thesis using t
    by (auto simp: fire_armed_def timer_callback_def clearTimeout_def Let_def)
qed

lemma skip_round_retry:
  assumes "armed_idle h s" "retryCount s < MAX_RETRIES" "r \<noteq> ''disabled''"
  shows "armed_idle h (skip_round r s) \<and> retryCount (skip_round r s) = Suc (retryCount s) \<and>
         trace (skip_round r s) = trace s @ [Invoked h (pendingReason s)]"
proof -
  note f = fire_armed_invokes[OF assms(1)]
  from assms(1) have h: "handler s = Some h" by (simp add: armed_idle_def)
  show ?thesis
    using assms(2,3) h
    apply (simp add: skip_round_def f settle_first_def resume_def retry_path_def finally_block_def schedule_def armed_idle_def Let_def)
    done
qed

lemma skip_round_exhausted:
  assumes "armed_idle h s" "retryCount s = MAX_RETRIES" "r \<noteq> ''disabled''"
  shows "quiet (skip_round r s) \<and> retryCount (skip_round r s) = 0 \<and>
         trace (skip_round r s) = trace s @ [Invoked h (pendingReason s), Warned (exhausted_message r)]"
proof -
  note f = fire_armed_invokes[OF assms(1)]
  show ?thesis
    using assms(2,3)
    apply (simp add: skip_round_def f settle_first_def resume_def retry_path_def finally_block_def schedule_def quiet_def Let_def)
    done
qed

lemma skip_rounds_retry:
  assumes "armed_idle h s" "retryCount s + length rs \<le> MAX_RETRIES" "list_all (\<lambda>r. r \<noteq> ''disabled'') rs"
  shows "armed_idle h (skip_rounds rs s) \<and> retryCount (skip_rounds rs s) = retryCount s + length rs \<and>
         invocations (skip_rounds rs s) = invocations s + length rs \<and>
         warnings (skip_rounds rs s) = warnings s"
  using assms
proof (induction rs arbitrary: s)
  case Nil
  then show ?case by (simp add: skip_rounds_def)
next
  case (Cons r rs)
  from Cons.prems have r: "retryCount s < MAX_RETRIES" "r \<noteq> ''disabled''" by simp_all
  note one = skip_round_retry[OF Cons.prems(1) r]
  have "armed_idle h (skip_rounds rs (skip_round r s)) \<and>
     retryCount (skip_rounds rs (skip_round r s)) = retryCount (skip_round r s) + length rs \<and>
     invocations (skip_rounds rs (skip_round r s)) = invocations (skip_round r s) + length rs \<and>
     warnings (skip_rounds rs (skip_round r s)) = warnings (skip_round r s)"
    using Cons.prems one by (intro Cons.IH) simp_all
  moreover have "skip_rounds (r # rs) s = skip_rounds rs (skip_round r s)"
    by (simp add: skip_rounds_def)
  moreover have "invocations (skip_round r s) = Suc (invocations s)" "warnings (skip_round r s) = warnings s"
    using one by (simp_all add: invocations_def warnings_def)
  ultimately show ?case using one by simp
qed

lemma sched_inv_step: "sched_inv s \<Longrightarrow> sched_inv (step e s)"
  by (cases e)
     (auto simp: sched_inv_def sched_defs MAX_RETRIES_def Let_def
      split: option.splits if_splits outcome.splits HeartbeatRunResult.splits)

lemma quiet_step: "quiet s \<Longrightarrow> \<not> is_request e \<Longrightarrow> quiet (step e s) \<and> trace (step e s) = trace s"
  by (cases e)
     (auto simp: quiet_def sched_defs Let_def
      split: option.splits if_splits outcome.splits HeartbeatRunResult.splits)

lemma quiet_run:
  "quiet s \<Longrightarrow> list_all (\<lambda>e. \<not> is_request e) evs \<Longrightarrow>
   quiet (run evs s) \<and> trace (run evs s) = trace s"
  unfolding run_def
  by (induction evs arbitrary: s) (auto simp: quiet_step)

lemma sched_inv_run: "sched_inv s \<Longrightarrow> sched_inv (run evs s)"
  unfolding run_def
  by (induction evs arbitrary: s) (auto simp: sched_inv_step)

lemma request_arms:
  assumes "handler s = Some h" "quiet s"
  shows "armed_idle h (requestHeartbeatNow reason coalesceMs s)"
    and "retryCount (requestHeartbeatNow reason coalesceMs s) = retryCount s"
    and "trace (requestHeartbeatNow reason coalesceMs s) = trace s"
  using assms by (simp_all add: requestHeartbeatNow_def schedule_def quiet_def armed_idle_def)

lemma skip_rounds_snoc: "skip_rounds (rs @ [r]) s = skip_round r (skip_rounds rs s)"
  by (simp add: skip_rounds_def)

text \<open>
  Claim C5. The state invariant holds in the initial state, every event of the loop
  (a wake request, a handler registration, the test reset, the clock advancing, a timer
  firing, a handler call settling) preserves it, so it holds after any sequence of
  events; and it gives at most one outstanding timeout and a retry counter of at most 10.
\<close>

theorem wake_scheduler_invariant:
  "sched_inv initial \<and>
   (sched_inv s \<longrightarrow> sched_inv (step e s)) \<and>
   sched_inv (run evs initial) \<and>
   (sched_inv s \<longrightarrow> length (timeouts s) \<le> 1 \<and> retryCount s \<le> 10)"
proof -
  have i: "sched_inv initial"
    by (simp add: sched_inv_def initial_def)
  have b: "length (timeouts s) \<le> 1 \<and> retryCount s \<le> 10" if "sched_inv s"
  proof -
    from that have m: "map handle (timeouts s) = (case timer s of None \<Rightarrow> [] | Some h \<Rightarrow> [h])"
      and r: "retryCount s \<le> 10"
      by (simp_all add: sched_inv_def MAX_RETRIES_def)
    have "length (timeouts s) = length (case timer s of None \<Rightarrow> [] | Some h \<Rightarrow> [h])"
      using arg_cong[OF m, of length] by simp
    then have "length (timeouts s) \<le> 1"
      by (simp split: option.splits)
    with r show ?thesis by simp
  qed
  show ?thesis using i b sched_inv_step sched_inv_run[OF i] by blast
qed

theorem wake_scheduler_invariant_witness:
  "sched_inv (step (RequestWake None None) initial) \<and>
   length (timeouts (step (RequestWake None None) initial)) = 1 \<and>
   retryCount (step (RequestWake None None) initial) \<le> 10"
proof -
  have "sched_inv initial"
    by (simp add: sched_inv_def initial_def)
  then show ?thesis
    using wake_scheduler_invariant [of initial "RequestWake None None" "[]"]
    by (simp add: initial_def requestHeartbeatNow_def schedule_def)
qed

text \<open>
  Claim C2. With a registered handler that answers every call with a \<^verbatim>\<open>skipped\<close>
  result whose reason is not \<^verbatim>\<open>disabled\<close>, one wake request made while nothing is
  pending and the retry counter is 0 leads to exactly 11 handler calls. After ten
  completions the counter is at its maximum and a timer is armed; the eleventh completion
  adds one warning, resets the counter to 0 and leaves no timer, and no later event other
  than a new wake request adds a call.
\<close>

theorem always_skipped_eleven_invocations:
  assumes "handler s0 = Some h" and "quiet s0" and "retryCount s0 = 0"
    and "length rs = 11" and "list_all (\<lambda>r. r \<noteq> ''disabled'') rs"
    and "list_all (\<lambda>e. \<not> is_request e) evs"
  shows "let s1 = requestHeartbeatNow reason coalesceMs s0;
             s10 = skip_rounds (butlast rs) s1;
             s11 = skip_round (last rs) s10
         in skip_rounds rs s1 = s11 \<and>
            invocations s10 = invocations s0 + 10 \<and> warnings s10 = warnings s0 \<and>
            retryCount s10 = MAX_RETRIES \<and> timer s10 \<noteq> None \<and>
            invocations s11 = invocations s0 + 11 \<and>
            warnings s11 = warnings s0 @ [Warned (exhausted_message (last rs))] \<and>
            retryCount s11 = 0 \<and> timer s11 = None \<and> timeouts s11 = [] \<and>
            invocations (run evs s11) = invocations s0 + 11"
proof -
  define s1 where "s1 = requestHeartbeatNow reason coalesceMs s0"
  define s10 where "s10 = skip_rounds (butlast rs) s1"
  define s11 where "s11 = skip_round (last rs) s10"
  from assms(4) have ne: "rs \<noteq> []" by auto
  then have split: "rs = butlast rs @ [last rs]" by simp
  have a1: "armed_idle h s1" "retryCount s1 = 0" "trace s1 = trace s0"
    using request_arms[OF assms(1,2)] assms(3) by (simp_all add: s1_def)
  have len: "retryCount s1 + length (butlast rs) \<le> MAX_RETRIES"
    using assms(4) a1(2) by (simp add: MAX_RETRIES_def)
  have nd: "list_all (\<lambda>r. r \<noteq> ''disabled'') (butlast rs)" "last rs \<noteq> ''disabled''"
    using assms(5) ne by (auto simp: list_all_iff dest: in_set_butlastD)
  have ten: "armed_idle h s10" "retryCount s10 = MAX_RETRIES"
    "invocations s10 = invocations s0 + 10" "warnings s10 = warnings s0"
    using skip_rounds_retry[OF a1(1) len nd(1)] a1(2,3) assms(4)
    by (simp_all add: s10_def MAX_RETRIES_def invocations_def warnings_def)
  have last: "quiet s11" "retryCount s11 = 0"
    "trace s11 = trace s10 @ [Invoked h (pendingReason s10), Warned (exhausted_message (last rs))]"
    using skip_round_exhausted[OF ten(1,2) nd(2)] by (simp_all add: s11_def)
  have eq: "skip_rounds rs s1 = s11"
    using skip_rounds_snoc[of "butlast rs" "last rs" s1] split by (simp add: s11_def s10_def)
  have after: "trace (run evs s11) = trace s11"
    using quiet_run[OF last(1) assms(6)] by simp
  have inv11: "invocations s11 = invocations s0 + 11"
    "warnings s11 = warnings s0 @ [Warned (exhausted_message (last rs))]"
    using last(3) ten(3,4) by (simp_all add: invocations_def warnings_def)
  have "timer s10 \<noteq> None" using ten(1) by (simp add: armed_idle_def)
  moreover have "timer s11 = None" "timeouts s11 = []" using last(1) by (simp_all add: quiet_def)
  moreover have "invocations (run evs s11) = invocations s0 + 11"
    using after inv11(1) by (simp add: invocations_def)
  ultimately show ?thesis
    using eq ten inv11 last(2)
    unfolding Let_def s1_def[symmetric] s10_def[symmetric] s11_def[symmetric]
    by simp
qed

theorem always_skipped_eleven_invocations_witness:
  "handler (setHeartbeatWakeHandler (Some 0) initial) = Some 0 \<and>
   quiet (setHeartbeatWakeHandler (Some 0) initial) \<and>
   retryCount (setHeartbeatWakeHandler (Some 0) initial) = 0 \<and>
   length (replicate 11 ''requests-in-flight'') = 11 \<and>
   list_all (\<lambda>r. r \<noteq> ''disabled'') (replicate 11 ''requests-in-flight'') \<and>
   list_all (\<lambda>e. \<not> is_request e) [Advance 5000] \<and>
   invocations (skip_rounds (replicate 11 ''requests-in-flight'')
     (requestHeartbeatNow (Some ''hook:wake'') None (setHeartbeatWakeHandler (Some 0) initial))) = 11 \<and>
   invocations (run [Advance 5000] (skip_rounds (replicate 11 ''requests-in-flight'')
     (requestHeartbeatNow (Some ''hook:wake'') None (setHeartbeatWakeHandler (Some 0) initial)))) = 11"
proof -
  let ?s0 = "setHeartbeatWakeHandler (Some 0) initial"
  let ?rs = "replicate 11 ''requests-in-flight''"
  have h: "handler ?s0 = Some 0" "quiet ?s0" "retryCount ?s0 = 0"
    by (simp_all add: setHeartbeatWakeHandler_def initial_def quiet_def)
  have l: "length ?rs = 11" "list_all (\<lambda>r. r \<noteq> ''disabled'') ?rs"
    "list_all (\<lambda>e. \<not> is_request e) [Advance 5000]"
    by (simp_all add: list_all_iff)
  have z: "invocations ?s0 = 0"
    by (simp add: invocations_def setHeartbeatWakeHandler_def initial_def)
  show ?thesis
    using h l z always_skipped_eleven_invocations [OF h l, of "Some ''hook:wake''" None]
    by (simp add: Let_def)
qed

lemma fire_armed_starts:
  assumes "handler s = Some h" and "\<not> running s" and "timer s \<noteq> None"
    and "map handle (timeouts s) = (case timer s of None \<Rightarrow> [] | Some t \<Rightarrow> [t])"
  shows "fire_armed s = s\<lparr>timer := None, scheduled := False, pendingReason := None, running := True,
            timeouts := [], now := now s + (deadline (hd (timeouts s)) - now s),
            inflight := inflight s @ [(pendingReason s, delay (hd (timeouts s)))],
            trace := trace s @ [Invoked h (pendingReason s)]\<rparr>"
proof -
  obtain t where t: "timeouts s = [t]" "timer s = Some (handle t)"
    using assms(3,4) by (auto split: option.splits)
  show ?thesis using t assms(1,2)
    by (auto simp: fire_armed_def timer_callback_def clearTimeout_def Let_def)
qed

lemma window_step:
  assumes "timer s \<noteq> None" and "request_or_advance e"
  shows "\<exists>p n. step e s = s\<lparr>pendingReason := p, now := n\<rparr>"
proof (cases e)
  case (RequestWake r c)
  have "step e s = s\<lparr>pendingReason := Some (nullish r (nullish (pendingReason s) ''requested'')), now := now s\<rparr>"
    using assms(1) RequestWake by (simp add: requestHeartbeatNow_def schedule_def)
  then show ?thesis by blast
next
  case (Advance d)
  have "step e s = s\<lparr>pendingReason := pendingReason s, now := now s + d\<rparr>"
    using Advance by simp
  then show ?thesis by blast
qed (use assms(2) in simp_all)

lemma window_run:
  assumes "timer s \<noteq> None" and "list_all request_or_advance evs"
  shows "\<exists>p n. run evs s = s\<lparr>pendingReason := p, now := n\<rparr>"
  using assms
proof (induction evs arbitrary: s)
  case Nil
  have "run [] s = s\<lparr>pendingReason := pendingReason s, now := now s\<rparr>"
    by (simp add: run_def)
  then show ?case by blast
next
  case (Cons e evs)
  from Cons.prems obtain p n where st: "step e s = s\<lparr>pendingReason := p, now := n\<rparr>"
    using window_step[of s e] by auto
  have "timer (s\<lparr>pendingReason := p, now := n\<rparr>) \<noteq> None" using Cons.prems(1) by simp
  moreover have "list_all request_or_advance evs" using Cons.prems(2) by simp
  ultimately obtain p' n' where
    "run evs (s\<lparr>pendingReason := p, now := n\<rparr>) = s\<lparr>pendingReason := p, now := n\<rparr>\<lparr>pendingReason := p', now := n'\<rparr>"
    using Cons.IH by blast
  then have "run (e # evs) s = s\<lparr>pendingReason := p', now := n'\<rparr>"
    using st by (simp add: run_def)
  then show ?case by blast
qed

lemma fire_armed_no_handler:
  assumes "handler s = None" and "timer s \<noteq> None"
    and "map handle (timeouts s) = (case timer s of None \<Rightarrow> [] | Some t \<Rightarrow> [t])"
  shows "fire_armed s = s\<lparr>timer := None, scheduled := False, timeouts := [],
            now := now s + (deadline (hd (timeouts s)) - now s)\<rparr>"
proof -
  obtain t where t: "timeouts s = [t]" "timer s = Some (handle t)"
    using assms(2,3) by (auto split: option.splits)
  show ?thesis using t assms(1)
    by (auto simp: fire_armed_def timer_callback_def clearTimeout_def Let_def)
qed

lemma fire_armed_while_running:
  assumes "handler s = Some h" and "running s" and "timer s \<noteq> None"
    and "map handle (timeouts s) = (case timer s of None \<Rightarrow> [] | Some t \<Rightarrow> [t])"
  shows "fire_armed s = s\<lparr>timer := Some (next_handle s), scheduled := True,
            timeouts := [\<lparr>handle = next_handle s,
               deadline = now s + (deadline (hd (timeouts s)) - now s) + delay (hd (timeouts s)),
               delay = delay (hd (timeouts s))\<rparr>],
            next_handle := Suc (next_handle s),
            now := now s + (deadline (hd (timeouts s)) - now s)\<rparr>"
proof -
  obtain t where t: "timeouts s = [t]" "timer s = Some (handle t)"
    using assms(3,4) by (auto split: option.splits)
  show ?thesis using t assms(1,2)
    by (auto simp: fire_armed_def timer_callback_def clearTimeout_def schedule_def Let_def)
qed

text \<open>
  Claim C3, as stated, fails in its last part: the fire that ends a coalescing window
  does not always call the handler. With a call already in flight, two wake requests
  arm one timer, and its fire calls nothing: it flags the re-arm and arms a new timer.
  With no handler registered, the fire of the window's timer calls nothing either.
\<close>

theorem coalescing_window_counterexample:
  "timer (run [RequestWake (Some ''a'') None, RequestWake (Some ''b'') None]
      (fire_armed (requestHeartbeatNow (Some ''first'') None
         (setHeartbeatWakeHandler (Some 0) initial)))) = Some 1 \<and>
   invocations (fire_armed (run [RequestWake (Some ''a'') None, RequestWake (Some ''b'') None]
      (fire_armed (requestHeartbeatNow (Some ''first'') None
         (setHeartbeatWakeHandler (Some 0) initial))))) =
   invocations (fire_armed (requestHeartbeatNow (Some ''first'') None
         (setHeartbeatWakeHandler (Some 0) initial))) \<and>
   timer (fire_armed (run [RequestWake (Some ''a'') None, RequestWake (Some ''b'') None]
      (fire_armed (requestHeartbeatNow (Some ''first'') None
         (setHeartbeatWakeHandler (Some 0) initial))))) = Some 2 \<and>
   timer (run [RequestWake (Some ''a'') None, RequestWake (Some ''b'') None] initial) = Some 0 \<and>
   invocations (fire_armed
      (run [RequestWake (Some ''a'') None, RequestWake (Some ''b'') None] initial)) = 0"
  by (simp add: run_def fire_armed_def requestHeartbeatNow_def schedule_def initial_def
      setHeartbeatWakeHandler_def
      timer_callback_def clearTimeout_def invocations_def DEFAULT_COALESCE_MS_def Let_def)

text \<open>
  Claim C3, amended. While a timer is armed, any sequence of wake requests (with the
  clock advancing in between) changes nothing but \<open>pendingReason\<close> and the clock: the
  stored handle, the outstanding timeout with its deadline, the handle counter and the
  trace stay as they were, so no second timer is armed. When that one timer then fires,
  the handler is called at most once: exactly once, with the reason the requests left and
  with no timer or reason remaining, when a handler is registered and no call is in
  flight; not at all when no handler is registered (the reason is kept and no timer
  remains) or when a call is in flight (the reason is kept, the re-arm is flagged and one
  new timer is armed for the same delay).
\<close>

theorem coalescing_window_at_most_one_invocation:
  assumes "sched_inv s" and "timer s \<noteq> None" and "list_all request_or_advance evs"
  shows "(\<exists>p n. run evs s = s\<lparr>pendingReason := p, now := n\<rparr>) \<and>
         timer (run evs s) = timer s \<and> timeouts (run evs s) = timeouts s \<and>
         next_handle (run evs s) = next_handle s \<and> trace (run evs s) = trace s \<and>
         (handler s = Some h \<and> \<not> running s \<longrightarrow>
            trace (fire_armed (run evs s)) = trace s @ [Invoked h (pendingReason (run evs s))] \<and>
            timer (fire_armed (run evs s)) = None \<and>
            timeouts (fire_armed (run evs s)) = [] \<and>
            pendingReason (fire_armed (run evs s)) = None) \<and>
         (handler s = None \<longrightarrow>
            trace (fire_armed (run evs s)) = trace s \<and>
            timer (fire_armed (run evs s)) = None \<and>
            timeouts (fire_armed (run evs s)) = [] \<and>
            pendingReason (fire_armed (run evs s)) = pendingReason (run evs s)) \<and>
         (handler s = Some h \<and> running s \<longrightarrow>
            trace (fire_armed (run evs s)) = trace s \<and>
            scheduled (fire_armed (run evs s)) \<and>
            timer (fire_armed (run evs s)) = Some (next_handle s) \<and>
            map handle (timeouts (fire_armed (run evs s))) = [next_handle s] \<and>
            map delay (timeouts (fire_armed (run evs s))) = map delay (timeouts s) \<and>
            pendingReason (fire_armed (run evs s)) = pendingReason (run evs s))"
proof -
  obtain p n where r: "run evs s = s\<lparr>pendingReason := p, now := n\<rparr>"
    using window_run[OF assms(2,3)] by blast
  let ?w = "s\<lparr>pendingReason := p, now := n\<rparr>"
  have m: "map handle (timeouts s) = (case timer s of None \<Rightarrow> [] | Some t \<Rightarrow> [t])"
    using assms(1) by (simp add: sched_inv_def)
  obtain t where t: "timeouts s = [t]"
    using assms(2) m by (auto split: option.splits)
  have idle: "trace (fire_armed (run evs s)) = trace s @ [Invoked h (pendingReason (run evs s))] \<and>
        timer (fire_armed (run evs s)) = None \<and>
        timeouts (fire_armed (run evs s)) = [] \<and>
        pendingReason (fire_armed (run evs s)) = None"
    if "handler s = Some h" "\<not> running s"
    using fire_armed_starts[of ?w h] that assms(2) m
    by (simp add: r)
  have absent: "trace (fire_armed (run evs s)) = trace s \<and>
        timer (fire_armed (run evs s)) = None \<and>
        timeouts (fire_armed (run evs s)) = [] \<and>
        pendingReason (fire_armed (run evs s)) = pendingReason (run evs s)"
    if "handler s = None"
    using fire_armed_no_handler[of ?w] that assms(2) m
    by (simp add: r)
  have busy: "trace (fire_armed (run evs s)) = trace s \<and>
        scheduled (fire_armed (run evs s)) \<and>
        timer (fire_armed (run evs s)) = Some (next_handle s) \<and>
        map handle (timeouts (fire_armed (run evs s))) = [next_handle s] \<and>
        map delay (timeouts (fire_armed (run evs s))) = map delay (timeouts s) \<and>
        pendingReason (fire_armed (run evs s)) = pendingReason (run evs s)"
    if "handler s = Some h" "running s"
    using fire_armed_while_running[of ?w h] that assms(2) m t
    by (simp add: r)
  show ?thesis using r idle absent busy by auto
qed

theorem coalescing_window_at_most_one_invocation_witness:
  "sched_inv (requestHeartbeatNow (Some ''a'') None (setHeartbeatWakeHandler (Some 0) initial)) \<and>
   timer (requestHeartbeatNow (Some ''a'') None (setHeartbeatWakeHandler (Some 0) initial)) \<noteq> None \<and>
   list_all request_or_advance [Advance 100, RequestWake (Some ''b'') (Some 5), RequestWake None None] \<and>
   timeouts (run [Advance 100, RequestWake (Some ''b'') (Some 5), RequestWake None None]
      (requestHeartbeatNow (Some ''a'') None (setHeartbeatWakeHandler (Some 0) initial)))
     = [\<lparr>handle = 0, deadline = 250, delay = 250\<rparr>] \<and>
   trace (fire_armed (run [Advance 100, RequestWake (Some ''b'') (Some 5), RequestWake None None]
      (requestHeartbeatNow (Some ''a'') None (setHeartbeatWakeHandler (Some 0) initial))))
     = [Invoked 0 (Some ''b'')] \<and>
   sched_inv (requestHeartbeatNow (Some ''a'') None initial) \<and>
   handler (requestHeartbeatNow (Some ''a'') None initial) = None \<and>
   trace (fire_armed (run [RequestWake (Some ''b'') None]
      (requestHeartbeatNow (Some ''a'') None initial))) = [] \<and>
   sched_inv (requestHeartbeatNow (Some ''a'') None
      (initial\<lparr>handler := Some 0, running := True, next_handle := 1, now := 250,
         inflight := [(Some ''first'', 250)], trace := [Invoked 0 (Some ''first'')]\<rparr>)) \<and>
   running (requestHeartbeatNow (Some ''a'') None
      (initial\<lparr>handler := Some 0, running := True, next_handle := 1, now := 250,
         inflight := [(Some ''first'', 250)], trace := [Invoked 0 (Some ''first'')]\<rparr>)) \<and>
   trace (fire_armed (run [RequestWake (Some ''b'') None]
      (requestHeartbeatNow (Some ''a'') None
      (initial\<lparr>handler := Some 0, running := True, next_handle := 1, now := 250,
         inflight := [(Some ''first'', 250)], trace := [Invoked 0 (Some ''first'')]\<rparr>)))) = [Invoked 0 (Some ''first'')] \<and>
   timer (fire_armed (run [RequestWake (Some ''b'') None]
      (requestHeartbeatNow (Some ''a'') None
      (initial\<lparr>handler := Some 0, running := True, next_handle := 1, now := 250,
         inflight := [(Some ''first'', 250)], trace := [Invoked 0 (Some ''first'')]\<rparr>)))) = Some 2"
proof -
  let ?s = "requestHeartbeatNow (Some ''a'') None (setHeartbeatWakeHandler (Some 0) initial)"
  let ?evs = "[Advance 100, RequestWake (Some ''b'') (Some 5), RequestWake None None]"
  let ?n = "requestHeartbeatNow (Some ''a'') None initial"
  let ?b = "requestHeartbeatNow (Some ''a'') None
      (initial\<lparr>handler := Some 0, running := True, next_handle := 1, now := 250,
         inflight := [(Some ''first'', 250)], trace := [Invoked 0 (Some ''first'')]\<rparr>)"
  let ?one = "[RequestWake (Some ''b'') None]"
  have s: "?s = initial\<lparr>handler := Some 0, pendingReason := Some ''a'', timer := Some 0,
      timeouts := [\<lparr>handle = 0, deadline = 250, delay = 250\<rparr>], next_handle := 1\<rparr>"
    by (simp add: requestHeartbeatNow_def setHeartbeatWakeHandler_def schedule_def initial_def
        DEFAULT_COALESCE_MS_def)
  have n: "?n = initial\<lparr>pendingReason := Some ''a'', timer := Some 0,
      timeouts := [\<lparr>handle = 0, deadline = 250, delay = 250\<rparr>], next_handle := 1\<rparr>"
    by (simp add: requestHeartbeatNow_def schedule_def initial_def DEFAULT_COALESCE_MS_def)
  have b: "?b = initial\<lparr>handler := Some 0, pendingReason := Some ''a'', running := True,
      timer := Some 1, timeouts := [\<lparr>handle = 1, deadline = 500, delay = 250\<rparr>],
      next_handle := 2, now := 250, inflight := [(Some ''first'', 250)],
      trace := [Invoked 0 (Some ''first'')]\<rparr>"
    by (simp add: requestHeartbeatNow_def schedule_def initial_def DEFAULT_COALESCE_MS_def)
  have hs: "sched_inv ?s" "timer ?s \<noteq> None" "list_all request_or_advance ?evs"
    unfolding s by (simp_all add: sched_inv_def initial_def MAX_RETRIES_def)
  have hn: "sched_inv ?n" "timer ?n \<noteq> None" "list_all request_or_advance ?one"
    unfolding n by (simp_all add: sched_inv_def initial_def MAX_RETRIES_def)
  have hb: "sched_inv ?b" "timer ?b \<noteq> None"
    unfolding b by (simp_all add: sched_inv_def initial_def MAX_RETRIES_def)
  have p: "pendingReason (run ?evs ?s) = Some ''b''"
    unfolding s by (simp add: run_def requestHeartbeatNow_def schedule_def initial_def)
  have gs: "handler ?s = Some 0 \<and> \<not> running ?s"
    unfolding s by (simp add: initial_def)
  have gn: "handler ?n = None"
    unfolding n by (simp add: initial_def)
  have gb: "handler ?b = Some 0 \<and> running ?b"
    unfolding b by simp
  have c1: "timeouts (run ?evs ?s) = [\<lparr>handle = 0, deadline = 250, delay = 250\<rparr>] \<and>
      trace (fire_armed (run ?evs ?s)) = [Invoked 0 (Some ''b'')]"
    using hs gs p coalescing_window_at_most_one_invocation [OF hs, of 0]
    unfolding s by (simp add: initial_def)
  have c2: "trace (fire_armed (run ?one ?n)) = []"
    using gn coalescing_window_at_most_one_invocation [OF hn, of 0]
    unfolding n by (simp add: initial_def)
  have c3: "trace (fire_armed (run ?one ?b)) = [Invoked 0 (Some ''first'')] \<and>
      timer (fire_armed (run ?one ?b)) = Some 2"
    using gb coalescing_window_at_most_one_invocation [OF hb hn(3), of 0]
    unfolding b by (simp add: initial_def)
  show ?thesis
    using hs hn(1) hb(1) gn gb c1 c2 c3 by blast
qed

lemma settle_not_retried:
  assumes "(reason, ms) \<in> set (inflight s)" and "\<not> transient out"
  shows "step (HandlerDone reason ms out) s =
           finally_block ms (s\<lparr>inflight := remove1 (reason, ms) (inflight s), retryCount := 0\<rparr>)"
proof (cases out)
  case (Resolved res)
  with assms show ?thesis
    by (cases res) (simp_all add: resume_def)
next
  case Rejected
  with assms(2) show ?thesis by simp
qed

lemma finally_block_fields:
  "retryCount (finally_block ms s) = retryCount s"
  "pendingReason (finally_block ms s) = pendingReason s"
  "trace (finally_block ms s) = trace s"
  "inflight (finally_block ms s) = inflight s"
  "handler (finally_block ms s) = handler s"
  "\<not> running (finally_block ms s)"
  by (simp_all add: finally_block_def schedule_def Let_def)

lemma finally_block_no_request:
  assumes "\<not> truthy (pendingReason s)" and "\<not> scheduled s"
  shows "finally_block ms s = s\<lparr>running := False\<rparr>"
  using assms by (simp add: finally_block_def Let_def)

text \<open>
  Claim C4. When a handler call settles as \<^verbatim>\<open>skipped\<close> with the reason
  \<^verbatim>\<open>disabled\<close>, whatever the retry counter was, the counter becomes 0, the reason of
  the run is not put back and nothing is logged. No timer is armed unless a wake request
  arrived or a re-arm was flagged while the call ran; and when the call was the only thing
  pending, the scheduler is left quiet: no event other than a new wake request leads to
  another call.
\<close>

theorem disabled_skip_never_retries:
  assumes "(reason, ms) \<in> set (inflight s)"
  shows "let s' = step (HandlerDone reason ms (Resolved (Skipped ''disabled''))) s in
           retryCount s' = 0 \<and> pendingReason s' = pendingReason s \<and> trace s' = trace s \<and>
           \<not> running s' \<and>
           (\<not> truthy (pendingReason s) \<and> \<not> scheduled s \<longrightarrow>
              timer s' = timer s \<and> timeouts s' = timeouts s \<and> next_handle s' = next_handle s) \<and>
           (timer s = None \<and> timeouts s = [] \<and> pendingReason s = None \<and> \<not> scheduled s \<and>
            inflight s = [(reason, ms)] \<and> list_all (\<lambda>e. \<not> is_request e) evs \<longrightarrow>
              quiet s' \<and> invocations (run evs s') = invocations s)"
proof -
  define s' where "s' = step (HandlerDone reason ms (Resolved (Skipped ''disabled''))) s"
  let ?m = "s\<lparr>inflight := remove1 (reason, ms) (inflight s), retryCount := 0\<rparr>"
  have eq: "s' = finally_block ms ?m"
    unfolding s'_def using assms by (intro settle_not_retried) simp_all
  have basic: "retryCount s' = 0" "pendingReason s' = pendingReason s" "trace s' = trace s"
    "\<not> running s'"
    by (simp_all add: eq finally_block_fields)
  have calm: "timer s' = timer s \<and> timeouts s' = timeouts s \<and> next_handle s' = next_handle s"
    if "\<not> truthy (pendingReason s)" "\<not> scheduled s"
    using that by (simp add: eq finally_block_no_request)
  have silent: "quiet s' \<and> invocations (run evs s') = invocations s"
    if q: "timer s = None" "timeouts s = []" "pendingReason s = None" "\<not> scheduled s"
      "inflight s = [(reason, ms)]" and evs: "list_all (\<lambda>e. \<not> is_request e) evs"
  proof -
    have "s' = ?m\<lparr>running := False\<rparr>"
      using q by (simp add: eq finally_block_no_request)
    then have "quiet s'" using q by (simp add: quiet_def)
    then show ?thesis
      using quiet_run[OF _ evs, of s'] basic(3) by (simp add: invocations_def)
  qed
  show ?thesis
    unfolding Let_def s'_def[symmetric] using basic calm silent by blast
qed

theorem disabled_skip_never_retries_witness:
  "(Some ''hook:wake'', 250) \<in> set [(Some ''hook:wake'', 250::nat)] \<and>
   list_all (\<lambda>e. \<not> is_request e) [Advance 2000, TimerFire 0] \<and>
   retryCount (step (HandlerDone (Some ''hook:wake'') 250 (Resolved (Skipped ''disabled'')))
     (initial\<lparr>handler := Some 0, running := True, retryCount := 7, next_handle := 1, now := 250,
        inflight := [(Some ''hook:wake'', 250)], trace := [Invoked 0 (Some ''hook:wake'')]\<rparr>)) = 0 \<and>
   timer (step (HandlerDone (Some ''hook:wake'') 250 (Resolved (Skipped ''disabled'')))
     (initial\<lparr>handler := Some 0, running := True, retryCount := 7, next_handle := 1, now := 250,
        inflight := [(Some ''hook:wake'', 250)], trace := [Invoked 0 (Some ''hook:wake'')]\<rparr>)) = None \<and>
   invocations (run [Advance 2000, TimerFire 0]
     (step (HandlerDone (Some ''hook:wake'') 250 (Resolved (Skipped ''disabled'')))
     (initial\<lparr>handler := Some 0, running := True, retryCount := 7, next_handle := 1, now := 250,
        inflight := [(Some ''hook:wake'', 250)], trace := [Invoked 0 (Some ''hook:wake'')]\<rparr>))) = 1"
proof -
  let ?s = "initial\<lparr>handler := Some 0, running := True, retryCount := 7, next_handle := 1,
        now := 250, inflight := [(Some ''hook:wake'', 250)], trace := [Invoked 0 (Some ''hook:wake'')]\<rparr>"
  have m: "(Some ''hook:wake'', 250) \<in> set (inflight ?s)"
    by simp
  have e: "list_all (\<lambda>e. \<not> is_request e) [Advance 2000, TimerFire 0]"
    by simp
  have i: "invocations ?s = 1"
    by (simp add: invocations_def)
  show ?thesis
    using e i disabled_skip_never_retries [OF m, of "[Advance 2000, TimerFire 0]"]
    by (simp add: Let_def initial_def)
qed

lemma settle_retried:
  assumes "(reason, ms) \<in> set (inflight s)" and "transient out" and "retryCount s < MAX_RETRIES"
  shows "step (HandlerDone reason ms out) s =
           finally_block ms (schedule DEFAULT_RETRY_MS
             (s\<lparr>inflight := remove1 (reason, ms) (inflight s), retryCount := retryCount s + 1,
                pendingReason := Some (nullish reason ''retry'')\<rparr>))"
proof (cases out)
  case (Resolved res)
  with assms show ?thesis
    by (cases res) (simp_all add: resume_def retry_path_def)
next
  case Rejected
  with assms show ?thesis by (simp add: resume_def retry_path_def)
qed

lemma schedule_fields:
  "retryCount (schedule ms s) = retryCount s"
  "pendingReason (schedule ms s) = pendingReason s"
  "trace (schedule ms s) = trace s"
  "inflight (schedule ms s) = inflight s"
  "handler (schedule ms s) = handler s"
  "running (schedule ms s) = running s"
  "timer (schedule ms s) \<noteq> None"
  by (simp_all add: schedule_def)

lemma finally_block_keeps_timer:
  "timer s \<noteq> None \<Longrightarrow> timer (finally_block ms s) \<noteq> None"
  by (simp add: finally_block_def schedule_def Let_def)

text \<open>
  Claim C9. A wake request with a fresh reason \<open>r2\<close>, made while a handler call that
  captured the reason \<open>r1\<close> is in flight, stores \<open>r2\<close>; when the call then settles as a
  transient skip or a rejection with the retry counter below the maximum, the retry path
  stores \<open>r1\<close> (or \<^verbatim>\<open>retry\<close> when \<open>r1\<close> was absent) over it, and the next call of
  the handler receives that old reason. The overwrite does not depend on what
  \<open>pendingReason\<close> held.
\<close>

theorem retry_overwrites_fresh_reason:
  assumes "(r1, ms) \<in> set (inflight s)" and "retryCount s < MAX_RETRIES" and "transient out"
  shows "pendingReason (step (HandlerDone r1 ms out) s) = Some (nullish r1 ''retry'') \<and>
         (let s1 = requestHeartbeatNow (Some r2) coalesceMs s;
              s2 = step (HandlerDone r1 ms out) s1;
              s3 = fire_armed s2
          in pendingReason s1 = Some r2 \<and>
             pendingReason s2 = Some (nullish r1 ''retry'') \<and>
             retryCount s2 = retryCount s + 1 \<and>
             (sched_inv s \<and> handler s = Some h \<longrightarrow>
                trace s3 = trace s @ [Invoked h (Some (nullish r1 ''retry''))]))"
proof -
  define s1 where "s1 = requestHeartbeatNow (Some r2) coalesceMs s"
  define s2 where "s2 = step (HandlerDone r1 ms out) s1"
  define s3 where "s3 = fire_armed s2"
  let ?k = "Some (nullish r1 ''retry'')"
  have direct: "pendingReason (step (HandlerDone r1 ms out) s) = ?k"
    unfolding settle_retried[OF assms(1,3,2)]
    by (simp add: finally_block_fields schedule_fields)
  have one: "pendingReason s1 = Some r2" "inflight s1 = inflight s" "retryCount s1 = retryCount s"
    "trace s1 = trace s" "handler s1 = handler s" "timer s1 \<noteq> None"
    by (simp_all add: s1_def requestHeartbeatNow_def schedule_fields)
  have in1: "(r1, ms) \<in> set (inflight s1)" "retryCount s1 < MAX_RETRIES"
    using assms(1,2) one by simp_all
  let ?m = "schedule DEFAULT_RETRY_MS
             (s1\<lparr>inflight := remove1 (r1, ms) (inflight s1), retryCount := retryCount s1 + 1,
                pendingReason := ?k\<rparr>)"
  have eq2: "s2 = finally_block ms ?m"
    unfolding s2_def by (rule settle_retried[OF in1(1) assms(3) in1(2)])
  have two: "pendingReason s2 = ?k" "retryCount s2 = retryCount s + 1" "trace s2 = trace s"
    "handler s2 = handler s" "\<not> running s2" "timer s2 \<noteq> None"
    using one
    by (simp_all add: eq2 finally_block_fields schedule_fields finally_block_keeps_timer)
  have three: "trace s3 = trace s @ [Invoked h ?k]" if "sched_inv s" "handler s = Some h"
  proof -
    have "sched_inv s1"
      using sched_inv_step[OF that(1), of "RequestWake (Some r2) coalesceMs"] by (simp add: s1_def)
    then have "sched_inv s2"
      unfolding s2_def by (rule sched_inv_step)
    then have link: "map handle (timeouts s2) = (case timer s2 of None \<Rightarrow> [] | Some t \<Rightarrow> [t])"
      by (simp add: sched_inv_def)
    have "handler s2 = Some h" using two(4) that(2) by simp
    from fire_armed_starts[OF this two(5,6) link] show ?thesis
      by (simp add: s3_def two)
  qed
  show ?thesis
    unfolding Let_def s1_def[symmetric] s2_def[symmetric] s3_def[symmetric]
    using direct one(1) two(1,2) three by blast
qed

theorem retry_overwrites_fresh_reason_witness:
  "(Some ''old'', 250) \<in> set [(Some ''old'', 250::nat)] \<and> (0::nat) < MAX_RETRIES \<and>
   transient (Resolved (Skipped ''requests-in-flight'')) \<and>
   sched_inv (initial\<lparr>handler := Some 0, running := True, next_handle := 1, now := 250,
        inflight := [(Some ''old'', 250)], trace := [Invoked 0 (Some ''old'')]\<rparr>) \<and>
   pendingReason (requestHeartbeatNow (Some ''fresh'') None
     (initial\<lparr>handler := Some 0, running := True, next_handle := 1, now := 250,
        inflight := [(Some ''old'', 250)], trace := [Invoked 0 (Some ''old'')]\<rparr>)) = Some ''fresh'' \<and>
   trace (fire_armed (step (HandlerDone (Some ''old'') 250 (Resolved (Skipped ''requests-in-flight'')))
     (requestHeartbeatNow (Some ''fresh'') None
     (initial\<lparr>handler := Some 0, running := True, next_handle := 1, now := 250,
        inflight := [(Some ''old'', 250)], trace := [Invoked 0 (Some ''old'')]\<rparr>))))
     = [Invoked 0 (Some ''old''), Invoked 0 (Some ''old'')]"
proof -
  let ?s = "initial\<lparr>handler := Some 0, running := True, next_handle := 1, now := 250,
        inflight := [(Some ''old'', 250)], trace := [Invoked 0 (Some ''old'')]\<rparr>"
  have m: "(Some ''old'', 250) \<in> set (inflight ?s)"
    by simp
  have r: "retryCount ?s < MAX_RETRIES"
    by (simp add: initial_def MAX_RETRIES_def)
  have t: "transient (Resolved (Skipped ''requests-in-flight''))"
    by simp
  have i: "sched_inv ?s" "handler ?s = Some 0"
    by (simp_all add: sched_inv_def initial_def)
  show ?thesis
    using t i retry_overwrites_fresh_reason [OF m r t, of "''fresh''" None 0]
    by (simp add: Let_def initial_def MAX_RETRIES_def)
qed

text \<open>
  Claim C10. The pending-wake observer is true exactly when \<open>pendingReason\<close> is set, a
  timer handle is stored or a re-arm is flagged; the \<open>running\<close> flag plays no part in it.
  Right after a timer has fired and started a handler call, the call is in flight,
  \<open>running\<close> is true and the observer answers false.
\<close>

theorem pending_wake_ignores_running:
  "(hasPendingHeartbeatWake (s\<lparr>running := b\<rparr>) = hasPendingHeartbeatWake s) \<and>
   (hasPendingHeartbeatWake s = (pendingReason s \<noteq> None \<or> timer s \<noteq> None \<or> scheduled s)) \<and>
   (sched_inv s \<and> timer s \<noteq> None \<and> handler s = Some h \<and> \<not> running s \<longrightarrow>
      running (fire_armed s) \<and> inflight (fire_armed s) \<noteq> [] \<and>
      \<not> hasPendingHeartbeatWake (fire_armed s))"
proof -
  have "running (fire_armed s) \<and> inflight (fire_armed s) \<noteq> [] \<and>
        \<not> hasPendingHeartbeatWake (fire_armed s)"
    if "sched_inv s" "timer s \<noteq> None" "handler s = Some h" "\<not> running s"
  proof -
    have "map handle (timeouts s) = (case timer s of None \<Rightarrow> [] | Some t \<Rightarrow> [t])"
      using that(1) by (simp add: sched_inv_def)
    from fire_armed_starts[OF that(3,4,2) this] show ?thesis
      by (simp add: hasPendingHeartbeatWake_def)
  qed
  then show ?thesis
    by (auto simp: hasPendingHeartbeatWake_def)
qed

theorem pending_wake_ignores_running_witness:
  "sched_inv (requestHeartbeatNow None None (setHeartbeatWakeHandler (Some 0) initial)) \<and>
   hasPendingHeartbeatWake (requestHeartbeatNow None None (setHeartbeatWakeHandler (Some 0) initial)) \<and>
   running (fire_armed (requestHeartbeatNow None None (setHeartbeatWakeHandler (Some 0) initial))) \<and>
   \<not> hasPendingHeartbeatWake
       (fire_armed (requestHeartbeatNow None None (setHeartbeatWakeHandler (Some 0) initial)))"
proof -
  let ?s = "requestHeartbeatNow None None (setHeartbeatWakeHandler (Some 0) initial)"
  have s: "?s = initial\<lparr>handler := Some 0, pendingReason := Some ''requested'', timer := Some 0,
      timeouts := [\<lparr>handle = 0, deadline = 250, delay = 250\<rparr>], next_handle := 1\<rparr>"
    by (simp add: requestHeartbeatNow_def setHeartbeatWakeHandler_def schedule_def initial_def
        DEFAULT_COALESCE_MS_def)
  have h: "sched_inv ?s \<and> timer ?s \<noteq> None \<and> handler ?s = Some 0 \<and> \<not> running ?s"
    unfolding s by (simp add: sched_inv_def initial_def MAX_RETRIES_def)
  have p: "hasPendingHeartbeatWake ?s"
    unfolding s by (simp add: hasPendingHeartbeatWake_def)
  show ?thesis
    using h p pending_wake_ignores_running [where s = ?s and b = False and h = 0]
    by blast
qed

text \<open>
  Claim C1, as stated, fails: a \<^verbatim>\<open>failed\<close> result does not take the retry path. On the
  same state, a \<^verbatim>\<open>skipped\<close> result with the reason \<^verbatim>\<open>boom\<close> increments the retry
  counter, restores the reason and arms a timer, while a \<^verbatim>\<open>failed\<close> result with the
  same reason leaves the counter at 0, stores no reason and arms nothing.
\<close>

theorem failed_is_not_retried_counterexample:
  "retryCount (settle_first (Resolved (Skipped ''boom''))
     (fire_armed (requestHeartbeatNow (Some ''hook:wake'') None
        (setHeartbeatWakeHandler (Some 0) initial)))) = 1 \<and>
   pendingReason (settle_first (Resolved (Skipped ''boom''))
     (fire_armed (requestHeartbeatNow (Some ''hook:wake'') None
        (setHeartbeatWakeHandler (Some 0) initial)))) = Some ''hook:wake'' \<and>
   timer (settle_first (Resolved (Skipped ''boom''))
     (fire_armed (requestHeartbeatNow (Some ''hook:wake'') None
        (setHeartbeatWakeHandler (Some 0) initial)))) = Some 1 \<and>
   retryCount (settle_first (Resolved (Failed ''boom''))
     (fire_armed (requestHeartbeatNow (Some ''hook:wake'') None
        (setHeartbeatWakeHandler (Some 0) initial)))) = 0 \<and>
   pendingReason (settle_first (Resolved (Failed ''boom''))
     (fire_armed (requestHeartbeatNow (Some ''hook:wake'') None
        (setHeartbeatWakeHandler (Some 0) initial)))) = None \<and>
   timer (settle_first (Resolved (Failed ''boom''))
     (fire_armed (requestHeartbeatNow (Some ''hook:wake'') None
        (setHeartbeatWakeHandler (Some 0) initial)))) = None"
  by (simp add: settle_first_def fire_armed_def requestHeartbeatNow_def
      setHeartbeatWakeHandler_def schedule_def initial_def timer_callback_def clearTimeout_def
      resume_def retry_path_def finally_block_def MAX_RETRIES_def DEFAULT_COALESCE_MS_def
      DEFAULT_RETRY_MS_def Let_def)

text \<open>
  Claim C1, amended. A \<^verbatim>\<open>failed\<close> result is treated exactly as a \<^verbatim>\<open>ran\<close> result
  and as a \<^verbatim>\<open>skipped\<close> result with the reason \<^verbatim>\<open>disabled\<close>: the retry counter is
  reset to 0, the reason of the run is not put back, nothing is logged, and no timer is
  armed unless a wake request arrived or a re-arm was flagged while the call ran.
\<close>

theorem failed_treated_as_ran:
  "step (HandlerDone reason ms (Resolved (Failed r))) s =
     step (HandlerDone reason ms (Resolved (Ran d))) s \<and>
   step (HandlerDone reason ms (Resolved (Failed r))) s =
     step (HandlerDone reason ms (Resolved (Skipped ''disabled''))) s \<and>
   ((reason, ms) \<in> set (inflight s) \<longrightarrow>
      (let s' = step (HandlerDone reason ms (Resolved (Failed r))) s in
         retryCount s' = 0 \<and> pendingReason s' = pendingReason s \<and> trace s' = trace s \<and>
         \<not> running s' \<and>
         (\<not> truthy (pendingReason s) \<and> \<not> scheduled s \<longrightarrow>
            timer s' = timer s \<and> timeouts s' = timeouts s \<and> next_handle s' = next_handle s)))"
proof -
  have same: "step (HandlerDone reason ms (Resolved (Failed r))) s =
     step (HandlerDone reason ms (Resolved (Ran d))) s"
    "step (HandlerDone reason ms (Resolved (Failed r))) s =
     step (HandlerDone reason ms (Resolved (Skipped ''disabled''))) s"
    by (simp_all add: resume_def)
  have "retryCount s' = 0 \<and> pendingReason s' = pendingReason s \<and> trace s' = trace s \<and>
         \<not> running s' \<and>
         (\<not> truthy (pendingReason s) \<and> \<not> scheduled s \<longrightarrow>
            timer s' = timer s \<and> timeouts s' = timeouts s \<and> next_handle s' = next_handle s)"
    if m: "(reason, ms) \<in> set (inflight s)"
      and s': "s' = step (HandlerDone reason ms (Resolved (Failed r))) s" for s'
  proof -
    have "s' = finally_block ms (s\<lparr>inflight := remove1 (reason, ms) (inflight s), retryCount := 0\<rparr>)"
      unfolding s' using m by (intro settle_not_retried) simp_all
    then show ?thesis
      by (simp add: finally_block_fields finally_block_no_request)
  qed
  then show ?thesis
    using same unfolding Let_def by blast
qed

theorem failed_treated_as_ran_witness:
  "(Some ''hook:wake'', 250) \<in> set [(Some ''hook:wake'', 250::nat)] \<and>
   retryCount (step (HandlerDone (Some ''hook:wake'') 250 (Resolved (Failed ''boom'')))
     (initial\<lparr>handler := Some 0, running := True, retryCount := 3, next_handle := 1, now := 250,
        inflight := [(Some ''hook:wake'', 250)], trace := [Invoked 0 (Some ''hook:wake'')]\<rparr>)) = 0 \<and>
   timer (step (HandlerDone (Some ''hook:wake'') 250 (Resolved (Failed ''boom'')))
     (initial\<lparr>handler := Some 0, running := True, retryCount := 3, next_handle := 1, now := 250,
        inflight := [(Some ''hook:wake'', 250)], trace := [Invoked 0 (Some ''hook:wake'')]\<rparr>)) = None"
proof -
  let ?s = "initial\<lparr>handler := Some 0, running := True, retryCount := 3, next_handle := 1,
        now := 250, inflight := [(Some ''hook:wake'', 250)], trace := [Invoked 0 (Some ''hook:wake'')]\<rparr>"
  have m: "(Some ''hook:wake'', 250) \<in> set (inflight ?s)"
    by simp
  show ?thesis
    using m failed_treated_as_ran [of "Some ''hook:wake''" 250 "''boom''" ?s 0]
    by (simp add: Let_def initial_def resume_def finally_block_def)
qed

section \<open>Properties of the session event queue\<close>

lemma peek_enqueue_same:
  assumes "\<not> is_blank k"
  shows "peekSystemEvents k (snd (enqueueSystemEvent text k q)) =
           (if length (peekSystemEvents k q) < MAX_EVENTS
            then peekSystemEvents k q @ [text]
            else tl (peekSystemEvents k q @ [text]))"
  using assms by (simp add: enqueueSystemEvent_def peekSystemEvents_def Let_def)

lemma peek_enqueue_other:
  "k2 \<noteq> k \<Longrightarrow> peekSystemEvents k2 (snd (enqueueSystemEvent text k q)) = peekSystemEvents k2 q"
  by (simp add: enqueueSystemEvent_def peekSystemEvents_def Let_def)

lemma overflows_enqueue:
  assumes "\<not> is_blank k"
  shows "overflows (snd (enqueueSystemEvent text k q)) =
           (if length (peekSystemEvents k q) < MAX_EVENTS then overflows q else overflows q @ [k])"
  using assms by (simp add: enqueueSystemEvent_def Let_def)

lemma enqueue_all_snoc:
  "enqueue_all k (texts @ [t]) q = snd (enqueueSystemEvent t k (enqueue_all k texts q))"
  by (simp add: enqueue_all_def)

lemma peek_enqueue_all_other:
  "k2 \<noteq> k \<Longrightarrow> peekSystemEvents k2 (enqueue_all k texts q) = peekSystemEvents k2 q"
  by (induction texts rule: rev_induct) (simp_all add: enqueue_all_def peek_enqueue_other)

lemma enqueue_all_within_capacity:
  assumes "\<not> is_blank k" and "length (peekSystemEvents k q) + length texts \<le> MAX_EVENTS"
  shows "peekSystemEvents k (enqueue_all k texts q) = peekSystemEvents k q @ texts \<and>
         overflows (enqueue_all k texts q) = overflows q"
  using assms(2)
proof (induction texts rule: rev_induct)
  case Nil
  then show ?case by (simp add: enqueue_all_def)
next
  case (snoc t texts)
  then have ih: "peekSystemEvents k (enqueue_all k texts q) = peekSystemEvents k q @ texts"
    "overflows (enqueue_all k texts q) = overflows q"
    by simp_all
  have "length (peekSystemEvents k (enqueue_all k texts q)) < MAX_EVENTS"
    using snoc.prems ih(1) by simp
  then show ?case
    using ih by (simp add: enqueue_all_snoc peek_enqueue_same[OF assms(1)] overflows_enqueue[OF assms(1)])
qed

text \<open>
  Claim C6. Enqueuing under a key \<open>K\<close>, once or many times, and draining \<open>K\<close> leave
  what \<^verbatim>\<open>peek\<close> and \<^verbatim>\<open>drainAndPrefix\<close> return for any other key \<open>K2\<close>
  unchanged, so an event of \<open>K\<close> never shows up under \<open>K2\<close>.
  \<^verbatim>\<open>drainAndPrefix(K)\<close> returns the sequence of \<open>K\<close>, which holds the enqueued texts
  in arrival order, and leaves the buffer of \<open>K\<close> empty.
\<close>

theorem session_isolation_and_fifo_drain:
  "(K2 \<noteq> K \<longrightarrow>
      peekSystemEvents K2 (snd (enqueueSystemEvent text K q)) = peekSystemEvents K2 q \<and>
      fst (drainAndPrefix K2 (snd (enqueueSystemEvent text K q))) = fst (drainAndPrefix K2 q) \<and>
      peekSystemEvents K2 (enqueue_all K texts q) = peekSystemEvents K2 q \<and>
      fst (drainAndPrefix K2 (enqueue_all K texts q)) = fst (drainAndPrefix K2 q) \<and>
      peekSystemEvents K2 (snd (drainAndPrefix K q)) = peekSystemEvents K2 q) \<and>
   fst (drainAndPrefix K q) = peekSystemEvents K q \<and>
   peekSystemEvents K (snd (drainAndPrefix K q)) = [] \<and>
   overflows (snd (drainAndPrefix K q)) = overflows q \<and>
   (\<not> is_blank K \<and> length (peekSystemEvents K q) + length texts \<le> MAX_EVENTS \<longrightarrow>
      fst (drainAndPrefix K (enqueue_all K texts q)) = peekSystemEvents K q @ texts)"
proof -
  have other: "peekSystemEvents K2 (snd (drainAndPrefix K q)) = peekSystemEvents K2 q"
    if "K2 \<noteq> K"
    using that by (simp add: drainAndPrefix_def peekSystemEvents_def)
  have own: "fst (drainAndPrefix K q) = peekSystemEvents K q"
    "peekSystemEvents K (snd (drainAndPrefix K q)) = []"
    "overflows (snd (drainAndPrefix K q)) = overflows q"
    by (simp_all add: drainAndPrefix_def peekSystemEvents_def)
  have d: "fst (drainAndPrefix k q') = peekSystemEvents k q'" for k q'
    by (simp add: drainAndPrefix_def)
  show ?thesis
    using other own enqueue_all_within_capacity[of K q texts]
    by (simp add: d peek_enqueue_other peek_enqueue_all_other)
qed

theorem session_isolation_and_fifo_drain_witness:
  "''main'' \<noteq> ''discord:group:123'' \<and> \<not> is_blank ''discord:group:123'' \<and>
   peekSystemEvents ''main'' (enqueue_all ''discord:group:123'' [''one'', ''two''] no_events) = [] \<and>
   fst (drainAndPrefix ''discord:group:123''
          (enqueue_all ''discord:group:123'' [''one'', ''two''] no_events)) = [''one'', ''two''] \<and>
   peekSystemEvents ''discord:group:123''
     (snd (drainAndPrefix ''discord:group:123''
          (enqueue_all ''discord:group:123'' [''one'', ''two''] no_events))) = []"
proof -
  have k: "''main'' \<noteq> ''discord:group:123''" "\<not> is_blank ''discord:group:123''"
    by (simp_all add: is_blank_def is_space_def)
  have e: "peekSystemEvents ''main'' no_events = []" "peekSystemEvents ''discord:group:123'' no_events = []"
    by (simp_all add: peekSystemEvents_def no_events_def)
  show ?thesis
    using k e
      session_isolation_and_fifo_drain [of "''main''" "''discord:group:123''" "''x''" no_events
        "[''one'', ''two'']"]
      session_isolation_and_fifo_drain [of "''main''" "''discord:group:123''" "''x''"
        "enqueue_all ''discord:group:123'' [''one'', ''two''] no_events" "[]"]
    by (simp add: MAX_EVENTS_def)
qed

text \<open>
  Claim C7. Starting from an empty buffer of a non-blank key, 21 enqueues leave the key
  with the last 20 texts in arrival order (the first one evicted) and add exactly one
  overflow observation, which carries the key; the first 20 enqueues add none and keep
  all 20 texts.
\<close>

theorem overflow_keeps_newest_twenty:
  assumes "\<not> is_blank k" and "peekSystemEvents k q = []" and "length texts = 21"
  shows "peekSystemEvents k (enqueue_all k texts q) = tl texts \<and>
         length (peekSystemEvents k (enqueue_all k texts q)) = 20 \<and>
         overflows (enqueue_all k texts q) = overflows q @ [k] \<and>
         peekSystemEvents k (enqueue_all k (butlast texts) q) = butlast texts \<and>
         overflows (enqueue_all k (butlast texts) q) = overflows q"
proof -
  from assms(3) have ne: "texts \<noteq> []" by auto
  then have split: "texts = butlast texts @ [last texts]" by simp
  have len: "length (peekSystemEvents k q) + length (butlast texts) \<le> MAX_EVENTS"
    using assms(2,3) by (simp add: MAX_EVENTS_def)
  note first = enqueue_all_within_capacity[OF assms(1) len]
  have twenty: "peekSystemEvents k (enqueue_all k (butlast texts) q) = butlast texts"
    "overflows (enqueue_all k (butlast texts) q) = overflows q"
    using first assms(2) by simp_all
  have full: "\<not> length (peekSystemEvents k (enqueue_all k (butlast texts) q)) < MAX_EVENTS"
    using twenty(1) assms(3) by (simp add: MAX_EVENTS_def)
  have all: "enqueue_all k texts q =
      snd (enqueueSystemEvent (last texts) k (enqueue_all k (butlast texts) q))"
    using enqueue_all_snoc[of k "butlast texts" "last texts" q] split by simp
  have "peekSystemEvents k (enqueue_all k texts q) = tl (butlast texts @ [last texts])"
    using full twenty(1) by (simp add: all peek_enqueue_same[OF assms(1)])
  then have p: "peekSystemEvents k (enqueue_all k texts q) = tl texts"
    using split by simp
  have o: "overflows (enqueue_all k texts q) = overflows q @ [k]"
    using full twenty(2) by (simp add: all overflows_enqueue[OF assms(1)])
  show ?thesis using p o twenty assms(3) by simp
qed

theorem overflow_keeps_newest_twenty_witness:
  "\<not> is_blank ''overflow-test'' \<and> peekSystemEvents ''overflow-test'' no_events = [] \<and>
   length (map (\<lambda>c. [c]) ''abcdefghijklmnopqrstu'') = 21 \<and>
   peekSystemEvents ''overflow-test''
     (enqueue_all ''overflow-test'' (map (\<lambda>c. [c]) ''abcdefghijklmnopqrstu'') no_events)
     = map (\<lambda>c. [c]) ''bcdefghijklmnopqrstu'' \<and>
   overflows (enqueue_all ''overflow-test'' (map (\<lambda>c. [c]) ''abcdefghijklmnopqrstu'') no_events)
     = [''overflow-test'']"
proof -
  have k: "\<not> is_blank ''overflow-test''"
    by (simp add: is_blank_def is_space_def)
  have e: "peekSystemEvents ''overflow-test'' no_events = []"
    by (simp add: peekSystemEvents_def no_events_def)
  have l: "length (map (\<lambda>c. [c]) ''abcdefghijklmnopqrstu'') = 21"
    by simp
  have t: "tl (map (\<lambda>c. [c]) ''abcdefghijklmnopqrstu'') = map (\<lambda>c. [c]) ''bcdefghijklmnopqrstu''"
    by simp
  have o: "overflows no_events = []"
    by (simp add: no_events_def)
  show ?thesis
    using k e l t o overflow_keeps_newest_twenty [OF k e l]
    by simp
qed

text \<open>
  Claim C8. With a blank or whitespace-only session key, \<^verbatim>\<open>enqueue\<close> fails at once
  with the argument error that names \<^verbatim>\<open>sessionKey\<close>, and the queue state is returned
  as it was: every buffer and the overflow log are unchanged.
\<close>

theorem blank_key_rejected:
  assumes "is_blank k"
  shows "enqueueSystemEvent text k q = (Some (InvalidArgument ''sessionKey''), q)"
  using assms by (simp add: enqueueSystemEvent_def)

theorem blank_key_rejected_witness:
  "is_blank '' '' \<and> is_blank [] \<and>
   enqueueSystemEvent ''Node: Mac Studio'' '' '' no_events =
     (Some (InvalidArgument ''sessionKey''), no_events)"
proof -
  have b: "is_blank '' ''"
    by (simp add: is_blank_def is_space_def)
  have "is_blank []"
    by (simp add: is_blank_def)
  then show ?thesis
    using b blank_key_rejected [OF b, of "''Node: Mac Studio''" no_events]
    by simp
qed

end
